theory Spec2Isabelle
  imports Complex_Main
begin

section \<open>Python values, exceptions and the interpreter's limits\<close>

text \<open>
  The program is \<^verbatim>\<open>src/ARSAA-DIMENSION-mvp.py\<close>. A Python \<^verbatim>\<open>str\<close> that the program reads
  (the AI response, an address, a display name) is a \<open>string\<close>: one \<open>char\<close> per code point,
  for code points 0..255. A string that \<^verbatim>\<open>json.loads\<close> decodes can hold any code point
  (through \<^verbatim>\<open>\uXXXX\<close> escapes), so decoded strings are lists of code points.
  Console output (\<^verbatim>\<open>print\<close>) is not part of the model.
\<close>

datatype py_exception =
    JSONDecodeError | ValueError | RecursionError | RuntimeError
  | TypeError | KeyError | IndexError | AttributeError | RequestException

text \<open>
  What \<^verbatim>\<open>json.loads\<close> returns: \<^verbatim>\<open>None\<close>, \<^verbatim>\<open>bool\<close>, \<^verbatim>\<open>int\<close>, \<^verbatim>\<open>float\<close>, \<^verbatim>\<open>str\<close>,
  \<^verbatim>\<open>list\<close>, \<^verbatim>\<open>dict\<close>. A float is kept as the literal that denotes it (Python converts the
  literal with \<^verbatim>\<open>float()\<close>; nothing here computes with it). A dict is the list of its
  items in insertion order.
\<close>

datatype pyval =
    PNone
  | PBool bool
  | PInt int
  | PFloat string
  | PStr "nat list"
  | PList "pyval list"
  | PDict "(nat list \<times> pyval) list"

definition str :: "string \<Rightarrow> nat list" where
  "str s = map of_char s"

text \<open>
  Two values of the running interpreter decide when \<^verbatim>\<open>json.loads\<close> raises something
  other than \<^verbatim>\<open>JSONDecodeError\<close>: the recursion depth still available at the call
  (each nested array or object enters one level; \<^verbatim>\<open>RecursionError\<close> beyond it), and
  \<^verbatim>\<open>sys.get_int_max_str_digits()\<close> (an integer literal with more digits raises
  \<^verbatim>\<open>ValueError\<close>; 0 switches the limit off).
\<close>

record interp =
  recursion_budget :: nat
  int_max_str_digits :: nat

definition default_interp :: interp where
  "default_interp = \<lparr>recursion_budget = 900, int_max_str_digits = 4300\<rparr>"

section \<open>The standard library's \<^verbatim>\<open>json.loads\<close>\<close>

text \<open>
  \<^verbatim>\<open>json.loads\<close> belongs to Python's standard library, not to the repository; the
  extractor calls it twice. It is modelled as CPython's \<^verbatim>\<open>json/decoder.py\<close> and
  \<^verbatim>\<open>json/scanner.py\<close> define it: a scan of the text into tokens, and a machine with
  an explicit stack of open containers that consumes them in order, so that the first
  failure met from left to right is the one raised.
\<close>

definition is_json_ws :: "char \<Rightarrow> bool" where
  "is_json_ws c = (c = CHR '' '' \<or> c = CHR 0x09 \<or> c = CHR 0x0A \<or> c = CHR 0x0D)"

definition is_digit :: "char \<Rightarrow> bool" where
  "is_digit c = (48 \<le> (of_char c :: nat) \<and> (of_char c :: nat) \<le> 57)"

definition digit_val :: "char \<Rightarrow> int" where
  "digit_val c = int (of_char c) - 48"

definition hex_val :: "char \<Rightarrow> nat option" where
  "hex_val c =
     (let n = (of_char c :: nat) in
      if 48 \<le> n \<and> n \<le> 57 then Some (n - 48)
      else if 97 \<le> n \<and> n \<le> 102 then Some (n - 87)
      else if 65 \<le> n \<and> n \<le> 70 then Some (n - 55)
      else None)"

fun hex4 :: "string \<Rightarrow> nat option" where
  "hex4 (a # b # c # d # _) =
     (case (hex_val a, hex_val b, hex_val c, hex_val d) of
        (Some w, Some x, Some y, Some z) \<Rightarrow> Some (((w * 16 + x) * 16 + y) * 16 + z)
      | _ \<Rightarrow> None)"
| "hex4 _ = None"

text \<open>The table \<^verbatim>\<open>BACKSLASH\<close> of \<^verbatim>\<open>json/decoder.py\<close>.\<close>

definition backslash :: "char \<Rightarrow> nat option" where
  "backslash e =
     (if e = CHR 0x22 then Some 0x22
      else if e = CHR 0x5C then Some 0x5C
      else if e = CHR ''/'' then Some 0x2F
      else if e = CHR ''b'' then Some 0x08
      else if e = CHR ''f'' then Some 0x0C
      else if e = CHR ''n'' then Some 0x0A
      else if e = CHR ''r'' then Some 0x0D
      else if e = CHR ''t'' then Some 0x09
      else None)"

text \<open>
  \<^verbatim>\<open>scanstring\<close> (strict mode), from the character after the opening quote: the decoded
  string and the text after the closing quote, or \<open>None\<close> where Python raises
  \<^verbatim>\<open>JSONDecodeError\<close> (unterminated string, control character, invalid escape).
\<close>

function scanstring :: "string \<Rightarrow> nat list \<Rightarrow> (nat list \<times> string) option" where
  "scanstring [] acc = None"
| "scanstring (c # cs) acc =
     (if c = CHR 0x22 then Some (rev acc, cs)
      else if c = CHR 0x5C then
        (case cs of
           [] \<Rightarrow> None
         | e # es \<Rightarrow>
             if e = CHR ''u'' then
               (case hex4 es of
                  None \<Rightarrow> None
                | Some uni \<Rightarrow>
                    if 0xD800 \<le> uni \<and> uni \<le> 0xDBFF \<and> take 2 (drop 4 es) = [CHR 0x5C, CHR ''u''] then
                      (case hex4 (drop 6 es) of
                         None \<Rightarrow> None
                       | Some uni2 \<Rightarrow>
                           if 0xDC00 \<le> uni2 \<and> uni2 \<le> 0xDFFF
                           then scanstring (drop 10 es)
                                  ((0x10000 + ((uni - 0xD800) * 1024 + (uni2 - 0xDC00))) # acc)
                           else scanstring (drop 4 es) (uni # acc))
                    else scanstring (drop 4 es) (uni # acc))
             else
               (case backslash e of
                  None \<Rightarrow> None
                | Some ch \<Rightarrow> scanstring es (ch # acc)))
      else if (of_char c :: nat) < 0x20 then None
      else scanstring cs (of_char c # acc))"
  by pat_completeness auto
termination
  by (relation "measure (\<lambda>(s, acc). length s)") auto

datatype token =
    TLBrace | TRBrace | TLBrack | TRBrack | TColon | TComma
  | TString "nat list"
  | TAtom pyval
  | TInt int nat
  | TBad

text \<open>
  \<^verbatim>\<open>NUMBER_RE = (-?(?:0|[1-9]\d*))(\.\d+)?([eE][-+]?\d+)?\<close> matched at the head of the text:
  the token and the number of characters matched. An integer literal becomes \<open>TInt\<close> with
  its value and its number of digits; with a fraction or an exponent it is a float.
\<close>

definition int_of_digits :: "string \<Rightarrow> int" where
  "int_of_digits ds = foldl (\<lambda>a d. 10 * a + digit_val d) 0 ds"

definition number_integer :: "string \<Rightarrow> string" where
  "number_integer s =
     (let ds = takeWhile is_digit s
      in if ds = [] then [] else if hd ds = CHR ''0'' then [CHR ''0''] else ds)"

definition number_frac :: "string \<Rightarrow> string" where
  "number_frac s =
     (case s of
        [] \<Rightarrow> []
      | c # r \<Rightarrow> if c = CHR ''.'' \<and> takeWhile is_digit r \<noteq> [] then c # takeWhile is_digit r else [])"

definition number_exp :: "string \<Rightarrow> string" where
  "number_exp s =
     (case s of
        [] \<Rightarrow> []
      | e # r \<Rightarrow>
          if e = CHR ''e'' \<or> e = CHR ''E'' then
            (let sign = (case r of
                           [] \<Rightarrow> []
                         | g # _ \<Rightarrow> if g = CHR ''-'' \<or> g = CHR ''+'' then [g] else []);
                 ed = takeWhile is_digit (drop (length sign) r)
             in if ed = [] then [] else e # sign @ ed)
          else [])"

definition match_number :: "string \<Rightarrow> (token \<times> nat) option" where
  "match_number s =
     (let minus = (if s \<noteq> [] \<and> hd s = CHR ''-'' then [CHR ''-''] else []);
          s1 = drop (length minus) s;
          integer = number_integer s1;
          frac = number_frac (drop (length integer) s1);
          ex = number_exp (drop (length integer + length frac) s1);
          lexeme = minus @ integer @ frac @ ex
      in if integer = [] then None
         else if frac = [] \<and> ex = []
         then Some (TInt (if minus = [] then int_of_digits integer else - int_of_digits integer)
                      (length integer), length lexeme)
         else Some (TAtom (PFloat lexeme), length lexeme))"

fun starts_with :: "string \<Rightarrow> string \<Rightarrow> bool" where
  "starts_with [] s = True"
| "starts_with (p # ps) [] = False"
| "starts_with (p # ps) (c # cs) = (p = c \<and> starts_with ps cs)"

lemma scanstring_shorter:
  "scanstring s acc = Some (v, rest) \<Longrightarrow> length rest < length s"
proof (induction s acc arbitrary: v rest rule: scanstring.induct)
  case (1 acc)
  then show ?case by simp
next
  case (2 c cs acc)
  show ?case
  proof (cases "c = CHR 0x22")
    case True
    with "2.prems" show ?thesis by simp
  next
    case notq: False
    show ?thesis
    proof (cases "c = CHR 0x5C")
      case False
      with notq "2.prems" "2.IH"(5) show ?thesis
        by (fastforce split: if_splits)
    next
      case True
      with notq "2.prems" "2.IH"(1-4) show ?thesis
        by (auto split: list.splits option.splits if_splits; fastforce)
    qed
  qed
qed

text \<open>
  The scan of the whole text: whitespace (\<^verbatim>\<open>[ \t\n\r]*\<close>) is skipped between tokens;
  the scan stops with \<open>TBad\<close> at the first place where no token starts.
\<close>

function lex :: "string \<Rightarrow> token list" where
  "lex [] = []"
| "lex (c # cs) =
     (if is_json_ws c then lex cs
      else if c = CHR ''{'' then TLBrace # lex cs
      else if c = CHR ''}'' then TRBrace # lex cs
      else if c = CHR ''['' then TLBrack # lex cs
      else if c = CHR '']'' then TRBrack # lex cs
      else if c = CHR '':'' then TColon # lex cs
      else if c = CHR '','' then TComma # lex cs
      else if c = CHR 0x22 then
        (case scanstring cs [] of
           None \<Rightarrow> [TBad]
         | Some (s, rest) \<Rightarrow> TString s # lex rest)
      else if starts_with ''null'' (c # cs) then TAtom PNone # lex (drop 3 cs)
      else if starts_with ''true'' (c # cs) then TAtom (PBool True) # lex (drop 3 cs)
      else if starts_with ''false'' (c # cs) then TAtom (PBool False) # lex (drop 4 cs)
      else
        (case match_number (c # cs) of
           Some (tok, n) \<Rightarrow> tok # lex (drop (n - 1) cs)
         | None \<Rightarrow>
             if starts_with ''NaN'' (c # cs) then TAtom (PFloat ''NaN'') # lex (drop 2 cs)
             else if starts_with ''Infinity'' (c # cs) then TAtom (PFloat ''Infinity'') # lex (drop 7 cs)
             else if starts_with ''-Infinity'' (c # cs) then TAtom (PFloat ''-Infinity'') # lex (drop 8 cs)
             else [TBad]))"
  by pat_completeness auto
termination
  by (relation "measure length") (auto dest: scanstring_shorter)

text \<open>
  \<^verbatim>\<open>dict[k] = v\<close>: a key that is already there keeps its place and takes the new value.
\<close>

fun dict_set :: "('k \<times> 'v) list \<Rightarrow> 'k \<Rightarrow> 'v \<Rightarrow> ('k \<times> 'v) list" where
  "dict_set [] k v = [(k, v)]"
| "dict_set ((k', v') # ps) k v = (if k' = k then (k, v) # ps else (k', v') # dict_set ps k v)"

text \<open>
  The machine. A frame is a container still open: an array with the elements read so far,
  or an object with its items and the key whose value is being read. The mode says what
  may come next.
\<close>

datatype frame = FArr "pyval list" | FObj "(nat list \<times> pyval) list" "nat list"

datatype mode = MValue | MFirst | MKeyFirst | MKey | MColon | MAfter | MDone pyval

fun deliver :: "pyval \<Rightarrow> frame list \<Rightarrow> frame list \<times> mode" where
  "deliver v [] = ([], MDone v)"
| "deliver v (FArr es # st) = (FArr (es @ [v]) # st, MAfter)"
| "deliver v (FObj ps k # st) = (FObj (dict_set ps k v) k # st, MAfter)"

fun start_value :: "interp \<Rightarrow> frame list \<Rightarrow> token \<Rightarrow> py_exception + (frame list \<times> mode)" where
  "start_value env st TLBrace =
     (if length st < recursion_budget env then Inr (FObj [] [] # st, MKeyFirst) else Inl RecursionError)"
| "start_value env st TLBrack =
     (if length st < recursion_budget env then Inr (FArr [] # st, MFirst) else Inl RecursionError)"
| "start_value env st (TString s) = Inr (deliver (PStr s) st)"
| "start_value env st (TAtom v) = Inr (deliver v st)"
| "start_value env st (TInt i n) =
     (if int_max_str_digits env \<noteq> 0 \<and> int_max_str_digits env < n then Inl ValueError
      else Inr (deliver (PInt i) st))"
| "start_value env st _ = Inl JSONDecodeError"

fun step :: "interp \<Rightarrow> frame list \<times> mode \<Rightarrow> token \<Rightarrow> py_exception + (frame list \<times> mode)" where
  "step env (st, MValue) t = start_value env st t"
| "step env (FArr es # st, MFirst) TRBrack = Inr (deliver (PList es) st)"
| "step env (st, MFirst) t = start_value env st t"
| "step env (FObj ps k # st, MKeyFirst) TRBrace = Inr (deliver (PDict ps) st)"
| "step env (FObj ps k # st, MKeyFirst) (TString s) = Inr (FObj ps s # st, MColon)"
| "step env (FObj ps k # st, MKey) (TString s) = Inr (FObj ps s # st, MColon)"
| "step env (st, MColon) TColon = Inr (st, MValue)"
| "step env (FArr es # st, MAfter) TComma = Inr (FArr es # st, MValue)"
| "step env (FObj ps k # st, MAfter) TComma = Inr (FObj ps k # st, MKey)"
| "step env (FArr es # st, MAfter) TRBrack = Inr (deliver (PList es) st)"
| "step env (FObj ps k # st, MAfter) TRBrace = Inr (deliver (PDict ps) st)"
| "step env _ _ = Inl JSONDecodeError"

fun run :: "interp \<Rightarrow> frame list \<times> mode \<Rightarrow> token list \<Rightarrow> py_exception + pyval" where
  "run env (st, m) [] = (case m of MDone v \<Rightarrow> Inr v | _ \<Rightarrow> Inl JSONDecodeError)"
| "run env s (t # ts) = (case step env s t of Inl e \<Rightarrow> Inl e | Inr s' \<Rightarrow> run env s' ts)"

definition json_loads :: "interp \<Rightarrow> string \<Rightarrow> py_exception + pyval" where
  "json_loads env s = run env ([], MValue) (lex s)"

section \<open>The response extractor\<close>

text \<open>
  \<^verbatim>\<open>\s\<close> of Python's \<^verbatim>\<open>re\<close> on a \<^verbatim>\<open>str\<close> pattern, for the code points 0..255:
  \<^verbatim>\<open>\t \n \v \f \r\<close>, \<^verbatim>\<open>\x1c .. \x1f\<close>, the space, \<^verbatim>\<open>\x85\<close> and \<^verbatim>\<open>\xa0\<close>.
\<close>

definition is_space :: "char \<Rightarrow> bool" where
  "is_space c =
     (let n = (of_char c :: nat) in (9 \<le> n \<and> n \<le> 13) \<or> (28 \<le> n \<and> n \<le> 32) \<or> n = 133 \<or> n = 160)"

text \<open>
  \<^verbatim>\<open>re.sub(r',\s*}', '}', s)\<close> and \<^verbatim>\<open>re.sub(r',\s*]', ']', s)\<close> (lines 400 and 401),
  with the closing character as a parameter. The scan goes from left to right; a match
  starts at a comma whose following run of whitespace ends in the closer (the greedy
  \<^verbatim>\<open>\s*\<close> takes the whole run, and no shorter run can be followed by the closer); the
  match is replaced by the closer and the scan goes on after it.
\<close>

function re_sub_trailing_comma :: "char \<Rightarrow> string \<Rightarrow> string" where
  "re_sub_trailing_comma closer [] = []"
| "re_sub_trailing_comma closer (x # xs) =
     (if x = CHR '','' \<and> starts_with [closer] (dropWhile is_space xs)
      then closer # re_sub_trailing_comma closer (tl (dropWhile is_space xs))
      else x # re_sub_trailing_comma closer xs)"
  by pat_completeness auto
termination
proof (relation "measure (\<lambda>(c, s). length s)")
  fix closer :: char and x :: char and xs :: string
  have "length (tl (dropWhile is_space xs)) \<le> length xs"
    using length_dropWhile_le [of is_space xs] by simp
  then show "((closer, tl (dropWhile is_space xs)), (closer, x # xs)) \<in> measure (\<lambda>(c, s). length s)"
    by simp
qed auto

text \<open>
  \<^verbatim>\<open>re.sub(r'"\s*\n\s*"', '" "', s)\<close> (line 404): a match starts at a quote whose following
  run of whitespace holds a newline and ends in a quote; it is replaced by quote, space,
  quote.
\<close>

function re_sub_line_break :: "string \<Rightarrow> string" where
  "re_sub_line_break [] = []"
| "re_sub_line_break (x # xs) =
     (if x = CHR 0x22 \<and> CHR 0x0A \<in> set (takeWhile is_space xs)
           \<and> starts_with [CHR 0x22] (dropWhile is_space xs)
      then CHR 0x22 # CHR '' '' # CHR 0x22 # re_sub_line_break (tl (dropWhile is_space xs))
      else x # re_sub_line_break xs)"
  by pat_completeness auto
termination
proof (relation "measure length")
  fix x :: char and xs :: string
  have "length (tl (dropWhile is_space xs)) \<le> length xs"
    using length_dropWhile_le [of is_space xs] by simp
  then show "(tl (dropWhile is_space xs), x # xs) \<in> measure length"
    by simp
qed auto

text \<open>
  \<^verbatim>\<open>str.find\<close> and \<^verbatim>\<open>str.rfind\<close> for a needle of one character (-1 when it is absent),
  and the slice \<^verbatim>\<open>s[a:b]\<close> for indices that are not negative (empty when \<open>b \<le> a\<close>).
\<close>

definition str_find :: "string \<Rightarrow> char \<Rightarrow> int" where
  "str_find s c = (if c \<in> set s then int (length (takeWhile (\<lambda>x. x \<noteq> c) s)) else - 1)"

definition str_rfind :: "string \<Rightarrow> char \<Rightarrow> int" where
  "str_rfind s c =
     (if c \<in> set s then int (length s) - 1 - int (length (takeWhile (\<lambda>x. x \<noteq> c) (rev s))) else - 1)"

definition slice :: "string \<Rightarrow> int \<Rightarrow> int \<Rightarrow> string" where
  "slice s a b = take (nat b - nat a) (drop (nat a) s)"

text \<open>The three substitutions of lines 400 to 404, in the source's order.\<close>

definition clean_up :: "string \<Rightarrow> string" where
  "clean_up json_candidate =
     re_sub_line_break
       (re_sub_trailing_comma (CHR '']'') (re_sub_trailing_comma (CHR ''}'') json_candidate))"

text \<open>
  \<^verbatim>\<open>JSONProcessor.extract_and_parse_json\<close> (lines 375 to 411). \<open>Inr None\<close> is the return
  of \<^verbatim>\<open>None\<close>, \<open>Inr (Some v)\<close> the return of a parsed value, \<open>Inl e\<close> an exception that
  leaves the function: both \<^verbatim>\<open>try\<close> blocks catch \<^verbatim>\<open>json.JSONDecodeError\<close> only.
\<close>

definition extract_and_parse_json :: "interp \<Rightarrow> string \<Rightarrow> py_exception + pyval option" where
  "extract_and_parse_json env text =
     (if text = [] \<or> CHR ''{'' \<notin> set text then Inr None
      else
        let start_idx = str_find text (CHR ''{'');
            end_idx = str_rfind text (CHR ''}'')
        in if start_idx = - 1 \<or> end_idx = - 1 then Inr None
           else
             let json_candidate = slice text start_idx (end_idx + 1)
             in case json_loads env json_candidate of
                  Inr v \<Rightarrow> Inr (Some v)
                | Inl JSONDecodeError \<Rightarrow>
                    (case json_loads env (clean_up json_candidate) of
                       Inr v \<Rightarrow> Inr (Some v)
                     | Inl JSONDecodeError \<Rightarrow> Inr None
                     | Inl e \<Rightarrow> Inl e)
                | Inl e \<Rightarrow> Inl e)"

section \<open>Properties of the response extractor\<close>

subsection \<open>The span from the first opening brace to the last closing brace\<close>

lemma takeWhile_until:
  "c \<notin> set xs \<Longrightarrow> takeWhile (\<lambda>x. x \<noteq> c) (xs @ c # ys) = xs"
  by (induction xs) auto

lemma takeWhile_stops:
  "c \<in> set xs \<Longrightarrow> length (takeWhile (\<lambda>x. x \<noteq> c) xs) < length xs"
  by (induction xs) auto

lemma str_find_first:
  "c \<notin> set pre \<Longrightarrow> str_find (pre @ c # rest) c = int (length pre)"
  by (simp add: str_find_def takeWhile_until)

lemma str_rfind_last:
  assumes "c \<notin> set post"
  shows "str_rfind (pre @ c # post) c = int (length pre)"
proof -
  from assms have "c \<notin> set (rev post)" by simp
  then have "takeWhile (\<lambda>x. x \<noteq> c) (rev post @ c # rev pre) = rev post"
    by (rule takeWhile_until)
  then have "takeWhile (\<lambda>x. x \<noteq> c) (rev (pre @ c # post)) = rev post"
    by simp
  then show ?thesis by (simp add: str_rfind_def)
qed

lemma candidate_span:
  assumes "CHR ''{'' \<notin> set pre" and "CHR ''}'' \<notin> set post"
  shows "slice (pre @ CHR ''{'' # body @ CHR ''}'' # post)
           (str_find (pre @ CHR ''{'' # body @ CHR ''}'' # post) (CHR ''{''))
           (str_rfind (pre @ CHR ''{'' # body @ CHR ''}'' # post) (CHR ''}'') + 1)
         = CHR ''{'' # body @ [CHR ''}'']"
proof -
  have f: "str_find (pre @ CHR ''{'' # body @ CHR ''}'' # post) (CHR ''{'') = int (length pre)"
    using assms(1) by (rule str_find_first)
  have "str_rfind ((pre @ CHR ''{'' # body) @ CHR ''}'' # post) (CHR ''}'')
      = int (length (pre @ CHR ''{'' # body))"
    using assms(2) by (rule str_rfind_last)
  then have r: "str_rfind (pre @ CHR ''{'' # body @ CHR ''}'' # post) (CHR ''}'')
      = int (length pre + length body + 1)"
    by simp
  have n: "nat (int (length pre + length body + 1) + 1) - nat (int (length pre))
      = length (CHR ''{'' # body @ [CHR ''}''])"
    by simp
  have "take (length (CHR ''{'' # body @ [CHR ''}''])) ((CHR ''{'' # body @ [CHR ''}'']) @ post)
      = CHR ''{'' # body @ [CHR ''}'']"
    by (rule append_eq_conv_conj [THEN iffD1, THEN conjunct1, symmetric]) simp
  then show ?thesis unfolding f r slice_def n by simp
qed

text \<open>
  What the extractor does once the span is known: the two parsing attempts of lines 391
  to 411, applied to the span.
\<close>

lemma extract_on_span:
  assumes "CHR ''{'' \<in> set text" and "CHR ''}'' \<in> set text"
    and "slice text (str_find text (CHR ''{'')) (str_rfind text (CHR ''}'') + 1) = cand"
  shows "extract_and_parse_json env text =
    (case json_loads env cand of
       Inr v \<Rightarrow> Inr (Some v)
     | Inl JSONDecodeError \<Rightarrow>
         (case json_loads env (clean_up cand) of
            Inr v \<Rightarrow> Inr (Some v)
          | Inl JSONDecodeError \<Rightarrow> Inr None
          | Inl e \<Rightarrow> Inl e)
     | Inl e \<Rightarrow> Inl e)"
proof -
  from assms(1) have ne: "text \<noteq> []" by auto
  from assms(1) have f: "str_find text (CHR ''{'') \<noteq> - 1" by (simp add: str_find_def)
  have "length (takeWhile (\<lambda>x. x \<noteq> CHR ''}'') (rev text)) < length (rev text)"
    using assms(2) by (intro takeWhile_stops) simp
  with assms(2) have r: "str_rfind text (CHR ''}'') \<noteq> - 1" by (simp add: str_rfind_def)
  show ?thesis
    unfolding extract_and_parse_json_def using ne assms(1) f r assms(3)
    by (simp add: Let_def)
qed

subsection \<open>An object wrapped in prose\<close>

text \<open>
  Claim C1, as the code supports it. The text is \<open>pre\<close>, then an object that starts
  with an opening brace and ends with a closing brace, then \<open>post\<close>. When \<open>pre\<close> holds
  no opening brace and \<open>post\<close> no closing brace, the span of line 388 is the object, and
  the extractor returns what \<^verbatim>\<open>json.loads\<close> makes of it.
\<close>

theorem extract_embedded_object:
  assumes "text = pre @ CHR ''{'' # body @ CHR ''}'' # post"
    and "CHR ''{'' \<notin> set pre" and "CHR ''}'' \<notin> set post"
    and "json_loads env (CHR ''{'' # body @ [CHR ''}'']) = Inr v"
  shows "extract_and_parse_json env text = Inr (Some v)"
proof -
  have s: "slice text (str_find text (CHR ''{'')) (str_rfind text (CHR ''}'') + 1)
      = CHR ''{'' # body @ [CHR ''}'']"
    unfolding assms(1) using assms(2,3) by (rule candidate_span)
  have m: "CHR ''{'' \<in> set text" "CHR ''}'' \<in> set text"
    by (simp_all add: assms(1))
  show ?thesis
    using extract_on_span [OF m s, of env] assms(4) by simp
qed

theorem extract_embedded_object_witness:
  \<open>''Sure: {"a": 1} ok'' = ''Sure: '' @ CHR ''{'' # ''"a": 1'' @ CHR ''}'' # '' ok''
   \<and> CHR ''{'' \<notin> set ''Sure: '' \<and> CHR ''}'' \<notin> set '' ok''
   \<and> json_loads default_interp (CHR ''{'' # ''"a": 1'' @ [CHR ''}'']) = Inr (PDict [(str ''a'', PInt 1)])
   \<and> extract_and_parse_json default_interp ''Sure: {"a": 1} ok''
       = Inr (Some (PDict [(str ''a'', PInt 1)]))\<close>
proof -
  have t: \<open>''Sure: {"a": 1} ok'' = ''Sure: '' @ CHR ''{'' # ''"a": 1'' @ CHR ''}'' # '' ok''\<close>
    by simp
  have p: "CHR ''{'' \<notin> set ''Sure: ''" "CHR ''}'' \<notin> set '' ok''"
    by simp_all
  have l: \<open>json_loads default_interp (CHR ''{'' # ''"a": 1'' @ [CHR ''}''])
      = Inr (PDict [(str ''a'', PInt 1)])\<close>
    by code_simp
  have \<open>extract_and_parse_json default_interp ''Sure: {"a": 1} ok''
      = Inr (Some (PDict [(str ''a'', PInt 1)]))\<close>
    using t p l by (rule extract_embedded_object)
  with p l show ?thesis by simp
qed

text \<open>
  The claim as it is written fails when the prose itself holds a brace: the text below
  contains exactly one valid JSON object, and the extractor returns \<^verbatim>\<open>None\<close>.
\<close>

theorem extract_prose_brace_counterexample:
  \<open>json_loads default_interp ''{"a": 1}'' = Inr (PDict [(str ''a'', PInt 1)])
   \<and> extract_and_parse_json default_interp ''note {x}: {"a": 1}'' = Inr None\<close>
  by code_simp

subsection \<open>No opening brace\<close>

text \<open>
  Claim C3: for a text that is empty or holds no opening brace the extractor returns
  \<^verbatim>\<open>None\<close>; it does not raise.
\<close>

theorem extract_no_brace_none:
  "text = [] \<or> CHR ''{'' \<notin> set text \<Longrightarrow> extract_and_parse_json env text = Inr None"
  by (auto simp: extract_and_parse_json_def)

theorem extract_no_brace_none_witness:
  "CHR ''{'' \<notin> set ''no object here }''
   \<and> extract_and_parse_json default_interp ''no object here }'' = Inr None
   \<and> extract_and_parse_json default_interp [] = Inr None"
proof -
  have a: "CHR ''{'' \<notin> set ''no object here }''" by simp
  then have "''no object here }'' = [] \<or> CHR ''{'' \<notin> set ''no object here }''" by simp
  from extract_no_brace_none [OF this] extract_no_brace_none [of "[]"] a
  show ?thesis by simp
qed

subsection \<open>The repair pass\<close>

lemma re_sub_trailing_comma_length:
  "length (re_sub_trailing_comma c s) \<le> length s"
proof (induction c s rule: re_sub_trailing_comma.induct)
  case (1 closer)
  then show ?case by simp
next
  case (2 closer x xs)
  have "length (tl (dropWhile is_space xs)) \<le> length xs"
    using length_dropWhile_le [of is_space xs] by simp
  with 2 show ?case by auto
qed

lemma starts_with_single: "starts_with [c] s = (s \<noteq> [] \<and> hd s = c)"
  by (cases s) auto

lemma re_sub_trailing_comma_fixed_head:
  assumes "re_sub_trailing_comma c (x # xs) = x # xs"
  shows "\<not> (x = CHR '','' \<and> starts_with [c] (dropWhile is_space xs))"
    and "re_sub_trailing_comma c xs = xs"
proof -
  show n: "\<not> (x = CHR '','' \<and> starts_with [c] (dropWhile is_space xs))"
  proof
    assume m: "x = CHR '','' \<and> starts_with [c] (dropWhile is_space xs)"
    then have "re_sub_trailing_comma c (x # xs) = c # re_sub_trailing_comma c (tl (dropWhile is_space xs))"
      by simp
    moreover have "length (re_sub_trailing_comma c (tl (dropWhile is_space xs))) \<le> length (tl (dropWhile is_space xs))"
      by (rule re_sub_trailing_comma_length)
    moreover have "length (tl (dropWhile is_space xs)) < length xs"
    proof -
      from m have "dropWhile is_space xs \<noteq> []" by (auto simp: starts_with_single)
      then have "length (tl (dropWhile is_space xs)) < length (dropWhile is_space xs)" by (cases "dropWhile is_space xs") auto
      then show ?thesis using length_dropWhile_le [of is_space xs] by linarith
    qed
    ultimately have "length (re_sub_trailing_comma c (x # xs)) < length (x # xs)" by simp
    with assms show False by simp
  qed
  with assms show "re_sub_trailing_comma c xs = xs" by (simp split: if_splits)
qed

lemma re_sub_trailing_comma_past:
  assumes "re_sub_trailing_comma c a = a" and "\<not> is_space x" and "x \<noteq> c"
  shows "re_sub_trailing_comma c (a @ x # r) = a @ re_sub_trailing_comma c (x # r)"
  using assms(1)
proof (induction a)
  case Nil
  then show ?case by simp
next
  case (Cons y ys)
  from re_sub_trailing_comma_fixed_head [OF Cons.prems]
  have nm: "\<not> (y = CHR '','' \<and> starts_with [c] (dropWhile is_space ys))"
    and fx: "re_sub_trailing_comma c ys = ys" by auto
  have "\<not> (y = CHR '','' \<and> starts_with [c] (dropWhile is_space (ys @ x # r)))"
  proof (cases "\<forall>w\<in>set ys. is_space w")
    case True
    then have "dropWhile is_space (ys @ x # r) = x # r"
      using assms(2) by (simp add: dropWhile_append2)
    then show ?thesis using assms(3) by simp
  next
    case False
    then have "dropWhile is_space (ys @ x # r) = dropWhile is_space ys @ x # r"
      by (auto simp: dropWhile_append1)
    moreover from False have "dropWhile is_space ys \<noteq> []" by (auto simp: dropWhile_eq_Nil_conv)
    ultimately show ?thesis using nm by (cases "dropWhile is_space ys") (auto simp: starts_with_single)
  qed
  then have "re_sub_trailing_comma c ((y # ys) @ x # r) = y # re_sub_trailing_comma c (ys @ x # r)"
    by auto
  with Cons.IH [OF fx] show ?case by simp
qed

lemma re_sub_trailing_comma_hit:
  assumes "\<forall>w\<in>set ws. is_space w" and "\<not> is_space c"
  shows "re_sub_trailing_comma c (CHR '','' # ws @ c # b) = c # re_sub_trailing_comma c b"
proof -
  have "dropWhile is_space (ws @ c # b) = c # b"
    using assms by (simp add: dropWhile_append2)
  then show ?thesis by simp
qed

lemma re_sub_trailing_comma_spaces:
  assumes "\<forall>w\<in>set ws. is_space w"
  shows "re_sub_trailing_comma c (ws @ r) = ws @ re_sub_trailing_comma c r"
  using assms
proof (induction ws)
  case Nil
  then show ?case by simp
next
  case (Cons w ws)
  then have "is_space w" by simp
  then have "w \<noteq> CHR '',''" by (auto simp: is_space_def)
  with Cons show ?case by simp
qed

lemma re_sub_trailing_comma_miss:
  assumes "\<forall>w\<in>set ws. is_space w" and "d \<noteq> c" and "\<not> is_space d" and "d \<noteq> CHR '',''"
  shows "re_sub_trailing_comma c (CHR '','' # ws @ d # b) = CHR '','' # ws @ d # re_sub_trailing_comma c b"
proof -
  have "dropWhile is_space (ws @ d # b) = d # b"
    using assms(1,3) by (simp add: dropWhile_append2)
  then have "re_sub_trailing_comma c (CHR '','' # ws @ d # b) = CHR '','' # re_sub_trailing_comma c (ws @ d # b)"
    using assms(2) by auto
  also have "re_sub_trailing_comma c (ws @ d # b) = ws @ re_sub_trailing_comma c (d # b)"
    using assms(1) by (rule re_sub_trailing_comma_spaces)
  also have "re_sub_trailing_comma c (d # b) = d # re_sub_trailing_comma c b"
    using assms(4) by simp
  finally show ?thesis by simp
qed

lemma re_sub_line_break_fixed_head:
  assumes "re_sub_line_break (x # xs) = x # xs"
  shows "\<not> (x = CHR 0x22 \<and> CHR 0x0A \<in> set (takeWhile is_space xs)
            \<and> starts_with [CHR 0x22] (dropWhile is_space xs))"
    and "re_sub_line_break xs = xs"
proof -
  show n: "\<not> (x = CHR 0x22 \<and> CHR 0x0A \<in> set (takeWhile is_space xs)
            \<and> starts_with [CHR 0x22] (dropWhile is_space xs))"
  proof
    assume m: "x = CHR 0x22 \<and> CHR 0x0A \<in> set (takeWhile is_space xs)
            \<and> starts_with [CHR 0x22] (dropWhile is_space xs)"
    then have "re_sub_line_break (x # xs)
        = CHR 0x22 # CHR '' '' # CHR 0x22 # re_sub_line_break (tl (dropWhile is_space xs))"
      by simp
    with assms obtain rest where xs: "xs = CHR '' '' # CHR 0x22 # rest"
      by auto
    have "takeWhile is_space xs = [CHR '' '']"
      unfolding xs by (simp add: is_space_def)
    with m show False by simp
  qed
  with assms show "re_sub_line_break xs = xs" by (simp split: if_splits)
qed

lemma re_sub_line_break_past:
  assumes "re_sub_line_break a = a" and "\<not> is_space x" and "x \<noteq> CHR 0x22"
  shows "re_sub_line_break (a @ x # r) = a @ x # re_sub_line_break r"
  using assms(1)
proof (induction a)
  case Nil
  then show ?case using assms(3) by simp
next
  case (Cons y ys)
  from re_sub_line_break_fixed_head [OF Cons.prems]
  have nm: "\<not> (y = CHR 0x22 \<and> CHR 0x0A \<in> set (takeWhile is_space ys)
            \<and> starts_with [CHR 0x22] (dropWhile is_space ys))"
    and fx: "re_sub_line_break ys = ys" by auto
  have "\<not> (y = CHR 0x22 \<and> CHR 0x0A \<in> set (takeWhile is_space (ys @ x # r))
            \<and> starts_with [CHR 0x22] (dropWhile is_space (ys @ x # r)))"
  proof (cases "\<forall>w\<in>set ys. is_space w")
    case True
    then have "dropWhile is_space (ys @ x # r) = x # r"
      using assms(2) by (simp add: dropWhile_append2)
    then show ?thesis using assms(3) by simp
  next
    case False
    then have "dropWhile is_space (ys @ x # r) = dropWhile is_space ys @ x # r"
      and "takeWhile is_space (ys @ x # r) = takeWhile is_space ys"
      by (auto simp: dropWhile_append1 takeWhile_append1)
    moreover from False have "dropWhile is_space ys \<noteq> []" by (auto simp: dropWhile_eq_Nil_conv)
    ultimately show ?thesis using nm by (cases "dropWhile is_space ys") (auto simp: starts_with_single)
  qed
  then have "re_sub_line_break ((y # ys) @ x # r) = y # re_sub_line_break (ys @ x # r)"
    by auto
  with Cons.IH [OF fx] show ?case by simp
qed

lemma clean_up_single_trailing_comma:
  assumes cl: "closer = CHR ''}'' \<or> closer = CHR '']''"
    and ws: "\<forall>w\<in>set ws. is_space w"
    and a: "re_sub_line_break a = a" "re_sub_trailing_comma (CHR ''}'') a = a"
           "re_sub_trailing_comma (CHR '']'') a = a"
    and b: "re_sub_trailing_comma (CHR ''}'') b = b"
           "re_sub_trailing_comma (CHR '']'') b = b" "re_sub_line_break b = b"
  shows "clean_up (a @ CHR '','' # ws @ closer # b) = a @ closer # b"
proof -
  note la = a(1)
  have sp: "\<not> is_space (CHR '','')" "\<not> is_space (CHR ''}'')" "\<not> is_space (CHR '']'')"
    by (simp_all add: is_space_def)
  have s12: "re_sub_trailing_comma (CHR '']'') (re_sub_trailing_comma (CHR ''}'') (a @ CHR '','' # ws @ closer # b))
      = a @ closer # b"
  proof (cases "closer = CHR ''}''")
    case True
    have "re_sub_trailing_comma (CHR ''}'') (a @ CHR '','' # ws @ CHR ''}'' # b)
        = a @ re_sub_trailing_comma (CHR ''}'') (CHR '','' # ws @ CHR ''}'' # b)"
      using a(2) sp(1) by (rule re_sub_trailing_comma_past) simp
    also have "\<dots> = a @ CHR ''}'' # b"
      using re_sub_trailing_comma_hit [OF ws sp(2), of b] b(1) by simp
    finally have one: "re_sub_trailing_comma (CHR ''}'') (a @ CHR '','' # ws @ CHR ''}'' # b) = a @ CHR ''}'' # b" .
    have "re_sub_trailing_comma (CHR '']'') (a @ CHR ''}'' # b)
        = a @ re_sub_trailing_comma (CHR '']'') (CHR ''}'' # b)"
      using a(3) sp(2) by (rule re_sub_trailing_comma_past) simp
    also have "\<dots> = a @ CHR ''}'' # b"
      using b(2) by simp
    finally show ?thesis using one True by simp
  next
    case False
    with cl have c: "closer = CHR '']''" by simp
    have "re_sub_trailing_comma (CHR ''}'') (a @ CHR '','' # ws @ CHR '']'' # b)
        = a @ re_sub_trailing_comma (CHR ''}'') (CHR '','' # ws @ CHR '']'' # b)"
      using a(2) sp(1) by (rule re_sub_trailing_comma_past) simp
    also have "\<dots> = a @ CHR '','' # ws @ CHR '']'' # b"
      using re_sub_trailing_comma_miss [OF ws _ sp(3), of "CHR ''}''" b] b(1) by simp
    finally have one: "re_sub_trailing_comma (CHR ''}'') (a @ CHR '','' # ws @ CHR '']'' # b)
        = a @ CHR '','' # ws @ CHR '']'' # b" .
    have "re_sub_trailing_comma (CHR '']'') (a @ CHR '','' # ws @ CHR '']'' # b)
        = a @ re_sub_trailing_comma (CHR '']'') (CHR '','' # ws @ CHR '']'' # b)"
      using a(3) sp(1) by (rule re_sub_trailing_comma_past) simp
    also have "\<dots> = a @ CHR '']'' # b"
      using re_sub_trailing_comma_hit [OF ws sp(3), of b] b(2) by simp
    finally show ?thesis using one c by simp
  qed
  have "re_sub_line_break (a @ closer # b) = a @ closer # re_sub_line_break b"
    using la
  proof (rule re_sub_line_break_past)
    show "\<not> is_space closer" using cl sp by auto
    show "closer \<noteq> CHR 0x22" using cl by auto
  qed
  with s12 b(3) show ?thesis by (simp add: clean_up_def)
qed

text \<open>
  Claim C2, as the code supports it. The span is \<open>a\<close>, a comma, a run \<open>ws\<close> of
  whitespace, a closing brace or bracket, and \<open>b\<close>; it does not parse; and no other place
  of it matches one of the three patterns (each substitution leaves \<open>a\<close> and \<open>b\<close> as they
  are). Then the extractor returns what \<^verbatim>\<open>json.loads\<close> makes of the span without the
  comma and the whitespace after it.
\<close>

theorem extract_repairs_trailing_comma:
  assumes "CHR ''{'' \<in> set text" and "CHR ''}'' \<in> set text"
    and "slice text (str_find text (CHR ''{'')) (str_rfind text (CHR ''}'') + 1)
           = a @ CHR '','' # ws @ closer # b"
    and "closer = CHR ''}'' \<or> closer = CHR '']''"
    and "\<forall>w\<in>set ws. is_space w"
    and "re_sub_line_break a = a" and "re_sub_trailing_comma (CHR ''}'') a = a"
    and "re_sub_trailing_comma (CHR '']'') a = a"
    and "re_sub_trailing_comma (CHR ''}'') b = b" and "re_sub_trailing_comma (CHR '']'') b = b"
    and "re_sub_line_break b = b"
    and "json_loads env (a @ CHR '','' # ws @ closer # b) = Inl JSONDecodeError"
    and "json_loads env (a @ closer # b) = Inr v"
  shows "extract_and_parse_json env text = Inr (Some v)"
proof -
  have c: "clean_up (a @ CHR '','' # ws @ closer # b) = a @ closer # b"
    using assms(4-11) by (rule clean_up_single_trailing_comma)
  show ?thesis
    using extract_on_span [OF assms(1-3), of env] assms(12,13) c by simp
qed

end
